theory Spec2Isabelle
  imports Main "HOL-Library.Sublist"
begin

section \<open>The path collector of \<open>trace/trace_code.py\<close>\<close>

text \<open>
  The script walks the directory tree under a base directory with \<open>os.walk\<close>, prunes
  the ignored directory names, and collects the files of the directories whose path
  relative to the base starts with one of the included prefixes and whose name matches
  one of the patterns. This theory embeds \<open>collect_paths\<close> and \<open>main\<close> together with the
  pieces of the Python library they call (on a POSIX host: separator \<open>/\<close>, no case
  folding), and states the properties of the specification over that embedding.
\<close>

subsection \<open>The constants of the script\<close>

definition IGNORE_DIRS :: "string set" where
  "IGNORE_DIRS = {''.git'', ''.gitignore'', ''.next'', ''node_modules'', ''.vscode'', ''docs''}"

definition IGNORE_FILES :: "string set" where
  "IGNORE_FILES =
     {''package.json'', ''package-lock.json'', ''README.md'', ''components.json'',
      ''tsconfig.json'', ''next-env.d.ts'', ''next.config.ts'',
      ''postcss.config.mjs'', ''tailwind.config.ts'', ''.env'', ''.modified''}"

definition LOGIC_PATTERNS :: "string list" where
  "LOGIC_PATTERNS = [''*.ts'', ''*.tsx'', ''*.js'', ''*.py'']"

definition LOGIC_DIRS :: "string list" where
  "LOGIC_DIRS = [''src/ai'', ''src/lib'', ''src/services'', ''src/middleware'', ''src/hooks'']"

definition STYLE_DIRS :: "string list" where
  "STYLE_DIRS = [''src/components'', ''src/app'']"

subsection \<open>The file system the script reads\<close>

text \<open>
  A directory is either listable, with the names of its non-directory entries and its
  sub-directories in the order \<open>os.scandir\<close> enumerates them, or listing it raises an
  \<open>OSError\<close> (it does not exist, it may not be read, it is not a directory), or it is a
  symbolic link to a directory. An entry counts as a sub-directory when \<open>is_dir()\<close> says
  so, which follows symbolic links; every other entry (a regular file, a link to a file,
  a dangling link) is a non-directory entry. File names are all the collector looks at,
  so files carry no content here.
\<close>

datatype os_error =
  FileNotFoundError | PermissionError | NotADirectoryError | FileExistsError | IsADirectoryError

datatype node =
    Fail os_error
  | Dir "string list" "(string \<times> node) list"
  | Link node

text \<open>\<open>os.scandir(path)\<close> lists the directory the path leads to, through symbolic links.\<close>

fun scandir :: "node \<Rightarrow> os_error + (string list \<times> (string \<times> node) list)" where
  "scandir (Fail error) = Inl error"
| "scandir (Dir nondirs subs) = Inr (nondirs, subs)"
| "scandir (Link target) = scandir target"

text \<open>\<open>os.path.islink\<close> on the path of an entry.\<close>

fun islink :: "node \<Rightarrow> bool" where
  "islink (Link target) = True"
| "islink (Fail error) = False"
| "islink (Dir nondirs subs) = False"

subsection \<open>Library functions: \<open>os.path.join\<close>, \<open>os.path.relpath\<close>, \<open>os.walk\<close>, \<open>fnmatch.filter\<close>\<close>

text \<open>
  \<open>posixpath.join(a, b)\<close>: a second component that starts with the separator replaces
  the first; otherwise the two are concatenated, with a separator unless the first is
  empty or already ends with one.
\<close>

definition os_path_join :: "string \<Rightarrow> string \<Rightarrow> string" where
  "os_path_join a b =
     (if prefix ''/'' b then b
      else if a = [] \<or> suffix ''/'' a then a @ b
      else a @ ''/'' @ b)"

text \<open>\<open>'/'.join(parts)\<close>.\<close>

fun sep_join :: "string list \<Rightarrow> string" where
  "sep_join [] = []"
| "sep_join [part] = part"
| "sep_join (part # parts) = part @ ''/'' @ sep_join parts"

text \<open>
  \<open>os.path.relpath(root, base_dir)\<close> is only ever called on a \<open>root\<close> that \<open>os.walk\<close> built
  from \<open>base_dir\<close> by joining directory names onto it. On such a path its \<open>rel_list\<close>, what
  is left of \<open>root\<close> after the components shared with \<open>base_dir\<close>, is the list of the names
  joined on, and it returns \<open>curdir\<close> when that list is empty and \<open>sep.join(rel_list)\<close>
  otherwise. The walk below records that list next to each \<open>root\<close>; \<open>relpath\<close> takes it.
\<close>

definition relpath :: "string list \<Rightarrow> string" where
  "relpath rel_list = (if rel_list = [] then ''.'' else sep_join rel_list)"

text \<open>
  One item of \<open>os.walk\<close>: \<open>(root, dirs, files)\<close>, and with it the names descended through
  from the top to reach \<open>root\<close>.
\<close>

type_synonym walk_item = "string \<times> string list \<times> string list \<times> string list"

text \<open>
  \<open>os.walk(top)\<close>, top-down, \<open>onerror=None\<close>, \<open>followlinks=False\<close>. A directory whose
  listing raises is dropped silently (\<open>onerror\<close> is \<open>None\<close>) and the walk goes on with the
  next one. A listable directory yields its item first; then the walk descends, in
  order, into the sub-directories the consumer left in \<open>dirs\<close>. The consumer here edits
  \<open>dirs\<close> in place by keeping the names that satisfy a test, which is the parameter
  \<open>keep\<close>; the names of a directory being pairwise different, keeping a name is keeping
  its entry. The names of all the sub-directories, listable or not, links or not, are in
  \<open>dirs\<close>. Of the names left in \<open>dirs\<close> the walk descends into those that are not symbolic
  links (\<open>if followlinks or not islink(new_path)\<close>). The top itself is not tested: it is
  listed through the link when it is one.
\<close>

fun os_walk :: "(string \<Rightarrow> bool) \<Rightarrow> string \<Rightarrow> string list \<Rightarrow> node \<Rightarrow> walk_item list" where
  "os_walk keep dirpath rel_list (Fail error) = []"
| "os_walk keep dirpath rel_list (Link target) = os_walk keep dirpath rel_list target"
| "os_walk keep dirpath rel_list (Dir nondirs subs) =
     (dirpath, rel_list, map fst subs, nondirs) #
     concat (map (\<lambda>(dirname, sub).
                    os_walk keep (os_path_join dirpath dirname) (rel_list @ [dirname]) sub)
                 (filter (\<lambda>(dirname, sub). keep dirname \<and> \<not> islink sub) subs))"

text \<open>
  \<open>fnmatch.filter(names, pat)\<close> keeps, in order, the names that match the pattern. The
  matching predicate of the library, \<open>fnmatch.fnmatchcase\<close> on a POSIX host, is a
  parameter \<open>fnm\<close> of the embedding: what is proved holds for every such predicate.
\<close>

definition fnmatch_filter :: "(string \<Rightarrow> string \<Rightarrow> bool) \<Rightarrow> string list \<Rightarrow> string \<Rightarrow> string list" where
  "fnmatch_filter fnm names pat = filter (\<lambda>name. fnm name pat) names"

text \<open>
  For concrete runs: the patterns built from literal characters, \<open>*\<close> (any run of
  characters) and \<open>?\<close> (any one character), which cover the patterns of the script.
  Bracket expressions are not interpreted by this instance.
\<close>

fun fnmatchcase :: "string \<Rightarrow> string \<Rightarrow> bool" where
  "fnmatchcase [] [] = True"
| "fnmatchcase (c # name) [] = False"
| "fnmatchcase name (p # pat) =
     (if p = CHR ''*'' then
        fnmatchcase name pat \<or> (case name of [] \<Rightarrow> False | c # name' \<Rightarrow> fnmatchcase name' (p # pat))
      else
        (case name of [] \<Rightarrow> False
         | c # name' \<Rightarrow> (p = CHR ''?'' \<or> p = c) \<and> fnmatchcase name' pat))"

subsection \<open>\<open>collect_paths\<close>\<close>

text \<open>
  The three nested loops of \<open>collect_paths\<close>, innermost first; each threads the list
  \<open>matches\<close> that the source appends to. Besides its three arguments the function reads
  the directory tree at \<open>base_dir\<close>, and it calls the matching of the library: both are
  arguments of the embedding. No statement of the function raises, and the walk drops
  the errors of the directories it cannot list, so the result is a list in every case.
\<close>

fun filename_loop :: "string \<Rightarrow> string list \<Rightarrow> string list \<Rightarrow> string list" where
  "filename_loop root [] matches = matches"
| "filename_loop root (filename # rest) matches =
     (if filename \<in> IGNORE_FILES then filename_loop root rest matches
      else filename_loop root rest (matches @ [os_path_join root filename]))"

fun pattern_loop ::
  "(string \<Rightarrow> string \<Rightarrow> bool) \<Rightarrow> string \<Rightarrow> string list \<Rightarrow> string list \<Rightarrow> string list \<Rightarrow> string list" where
  "pattern_loop fnm root files [] matches = matches"
| "pattern_loop fnm root files (pattern # rest) matches =
     pattern_loop fnm root files rest
       (filename_loop root (fnmatch_filter fnm files pattern) matches)"

fun walk_loop ::
  "(string \<Rightarrow> string \<Rightarrow> bool) \<Rightarrow> string list \<Rightarrow> string list \<Rightarrow> walk_item list \<Rightarrow> string list \<Rightarrow> string list" where
  "walk_loop fnm dirs_include patterns [] matches = matches"
| "walk_loop fnm dirs_include patterns ((root, rel_list, dirs, files) # rest) matches =
     (if list_ex (\<lambda>d. prefix d (relpath rel_list)) dirs_include
      then walk_loop fnm dirs_include patterns rest (pattern_loop fnm root files patterns matches)
      else walk_loop fnm dirs_include patterns rest matches)"

definition collect_paths ::
  "(string \<Rightarrow> string \<Rightarrow> bool) \<Rightarrow> string \<Rightarrow> node \<Rightarrow> string list \<Rightarrow> string list \<Rightarrow> string list" where
  "collect_paths fnm base_dir tree dirs_include patterns =
     walk_loop fnm dirs_include patterns
       (os_walk (\<lambda>d. d \<notin> IGNORE_DIRS) base_dir [] tree) []"

subsection \<open>\<open>main\<close>\<close>

text \<open>
  \<open>main\<close> can end with an exception of a call it makes: an \<open>OSError\<close> of the operating
  system, or the \<open>UnicodeEncodeError\<close> of a text that the encoding of a file or of the
  standard output does not accept (a file name that is not valid in the encoding of the
  file system is such a text).
\<close>

datatype exn = OSError os_error | UnicodeEncodeError

text \<open>
  What \<open>main\<close> reads and changes: what \<open>os.getcwd()\<close> returns or raises, the directory
  tree at the working directory, the content of the files it writes, and the standard
  output. The paths \<open>main\<close> builds are the working directory joined with names, so the
  operations on the tree and the contents are addressed by these names. \<open>refused\<close> holds
  the paths that the system does not let the script create or open for writing, with
  the error it raises (a missing permission, a read-only file system). \<open>write_error\<close>
  holds the paths on which writing out a text that is not empty fails (a full device).
  \<open>file_encodes\<close> and \<open>stdout_encodes\<close> tell the texts that the encoding of the written
  files and of the standard output accept. \<open>stdout_error\<close> is the error of writing to
  the standard output, if any (a closed pipe).
\<close>

record world =
  cwd :: "os_error + string"
  cwd_tree :: node
  contents :: "string list \<rightharpoonup> string"
  refused :: "string list \<rightharpoonup> os_error"
  write_error :: "string list \<rightharpoonup> os_error"
  file_encodes :: "string \<Rightarrow> bool"
  stdout :: "string list"
  stdout_encodes :: "string \<Rightarrow> bool"
  stdout_error :: "os_error option"

text \<open>\<open>os.linesep\<close> on a POSIX host.\<close>

definition linesep :: string where
  "linesep = [CHR 0x0A]"

text \<open>
  Looking into the tree by name. A path leads through symbolic links, so each of these
  follows the link when the node is one.
\<close>

fun listable :: "node \<Rightarrow> bool" where
  "listable (Fail error) = False"
| "listable (Dir nondirs subs) = True"
| "listable (Link target) = listable target"

fun is_subdir :: "string \<Rightarrow> node \<Rightarrow> bool" where
  "is_subdir name (Fail error) = False"
| "is_subdir name (Dir nondirs subs) = (name \<in> fst ` set subs)"
| "is_subdir name (Link target) = is_subdir name target"

fun is_file :: "string \<Rightarrow> node \<Rightarrow> bool" where
  "is_file name (Fail error) = False"
| "is_file name (Dir nondirs subs) = (name \<in> set nondirs)"
| "is_file name (Link target) = is_file name target"

fun lookup_sub :: "string \<Rightarrow> node \<Rightarrow> node option" where
  "lookup_sub name (Fail error) = None"
| "lookup_sub name (Dir nondirs subs) = map_of subs name"
| "lookup_sub name (Link target) = lookup_sub name target"

text \<open>
  Changing the tree: a new empty sub-directory (put last in the listing), and a file
  name in a directory, added to the listing unless it is there. A directory that cannot
  be listed stays what it is for a scan.
\<close>

fun mkdir :: "string \<Rightarrow> node \<Rightarrow> node" where
  "mkdir name (Fail error) = Fail error"
| "mkdir name (Dir nondirs subs) = Dir nondirs (subs @ [(name, Dir [] [])])"
| "mkdir name (Link target) = Link (mkdir name target)"

fun touch :: "string \<Rightarrow> node \<Rightarrow> node" where
  "touch fname (Fail error) = Fail error"
| "touch fname (Dir nondirs subs) =
     Dir (if fname \<in> set nondirs then nondirs else nondirs @ [fname]) subs"
| "touch fname (Link target) = Link (touch fname target)"

fun touch_in :: "string \<Rightarrow> string \<Rightarrow> node \<Rightarrow> node" where
  "touch_in dname fname (Fail error) = Fail error"
| "touch_in dname fname (Dir nondirs subs) =
     Dir nondirs (map (\<lambda>(n, sub). (n, if n = dname then touch fname sub else sub)) subs)"
| "touch_in dname fname (Link target) = Link (touch_in dname fname target)"

text \<open>A system call that creates or opens \<open>names\<close> for writing: it raises when refused.\<close>

definition attempt :: "string list \<Rightarrow> world \<Rightarrow> world \<Rightarrow> exn + world" where
  "attempt names w w' =
     (case refused w names of Some error \<Rightarrow> Inl (OSError error) | None \<Rightarrow> Inr w')"

text \<open>
  \<open>os.makedirs(output_dir, exist_ok=True)\<close> for \<open>output_dir\<close> a name directly below the
  working directory. The call is fine when the directory exists already, raises
  \<open>FileExistsError\<close> when the name is taken by an entry that is not a directory, and
  creates the directory otherwise.
\<close>

definition makedirs_exist_ok :: "string \<Rightarrow> world \<Rightarrow> exn + world" where
  "makedirs_exist_ok name w =
     (if is_subdir name (cwd_tree w) then Inr w
      else if is_file name (cwd_tree w) then Inl (OSError FileExistsError)
      else attempt [name] w (w\<lparr>cwd_tree := mkdir name (cwd_tree w)\<rparr>))"

text \<open>
  The loop \<open>for path in ...: f.write(path + os.linesep)\<close> on a file that holds \<open>f\<close>: the
  text of the file after the loop and the exception that ended the loop, if any. A
  write encodes its text, and raises when the encoding does not accept it.
\<close>

fun write_loop :: "(string \<Rightarrow> bool) \<Rightarrow> string list \<Rightarrow> string \<Rightarrow> string \<times> exn option" where
  "write_loop encodes [] f = (f, None)"
| "write_loop encodes (path # rest) f =
     (if encodes (path @ linesep) then write_loop encodes rest (f @ path @ linesep)
      else (f, Some UnicodeEncodeError))"

text \<open>
  \<open>with open(path, 'w') as f:\<close> and the loop, for the file \<open>fname\<close> in the directory
  \<open>dname\<close> below the working directory. Opening raises when the directory is missing,
  when the name is a directory, or when the system refuses; it empties the file. Leaving
  the block closes the file, which writes the text out: an error of the device there
  is the exception of the block, else the exception of the loop is. When nothing is
  raised the file holds exactly the text written, whatever it held before, and it is an
  entry of its directory from then on.
\<close>

definition write_paths :: "string \<Rightarrow> string \<Rightarrow> string list \<Rightarrow> world \<Rightarrow> exn + world" where
  "write_paths dname fname paths w =
     (if (case lookup_sub dname (cwd_tree w) of
            None \<Rightarrow> listable (cwd_tree w)
          | Some sub \<Rightarrow> False)
      then Inl (OSError FileNotFoundError)
      else if (case lookup_sub dname (cwd_tree w) of
                 None \<Rightarrow> False
               | Some sub \<Rightarrow> is_subdir fname sub)
      then Inl (OSError IsADirectoryError)
      else case refused w [dname, fname] of
             Some error \<Rightarrow> Inl (OSError error)
           | None \<Rightarrow>
               (case write_loop (file_encodes w) paths [] of
                  (text, raised) \<Rightarrow>
                    (case (if text = [] then None else write_error w [dname, fname]) of
                       Some error \<Rightarrow> Inl (OSError error)
                     | None \<Rightarrow>
                         (case raised of
                            Some e \<Rightarrow> Inl e
                          | None \<Rightarrow>
                              Inr (w\<lparr>cwd_tree := touch_in dname fname (cwd_tree w),
                                      contents := (contents w)([dname, fname] \<mapsto> text)\<rparr>)))))"

text \<open>\<open>print(line)\<close>.\<close>

definition print :: "string \<Rightarrow> world \<Rightarrow> exn + world" where
  "print line w =
     (if \<not> stdout_encodes w line then Inl UnicodeEncodeError
      else case stdout_error w of
             Some error \<Rightarrow> Inl (OSError error)
           | None \<Rightarrow> Inr (w\<lparr>stdout := stdout w @ [line]\<rparr>))"

text \<open>
  \<open>main\<close>. Each call that may raise is a \<open>case\<close>: an exception ends the run there, and
  the state it leaves is not described.
\<close>

definition main :: "(string \<Rightarrow> string \<Rightarrow> bool) \<Rightarrow> world \<Rightarrow> exn + world" where
  "main fnm w =
     (case cwd w of Inl error \<Rightarrow> Inl (OSError error) | Inr repo_path \<Rightarrow>
      let output_dir = os_path_join repo_path ''trace''
      in case makedirs_exist_ok ''trace'' w of Inl e \<Rightarrow> Inl e | Inr w1 \<Rightarrow>
         let logic_files = collect_paths fnm repo_path (cwd_tree w1) LOGIC_DIRS LOGIC_PATTERNS;
             logic_output = os_path_join output_dir ''logic_files.txt''
         in case write_paths ''trace'' ''logic_files.txt'' logic_files w1 of
              Inl e \<Rightarrow> Inl e | Inr w2 \<Rightarrow>
         let combined_dirs = LOGIC_DIRS @ STYLE_DIRS;
             all_files = collect_paths fnm repo_path (cwd_tree w2) combined_dirs LOGIC_PATTERNS;
             combined_output = os_path_join output_dir ''logic_style_files.txt''
         in case write_paths ''trace'' ''logic_style_files.txt'' all_files w2 of
              Inl e \<Rightarrow> Inl e | Inr w3 \<Rightarrow>
         case print (''Logic file list saved to: '' @ logic_output) w3 of
              Inl e \<Rightarrow> Inl e | Inr w4 \<Rightarrow>
         print (''Logic+Style file list saved to: '' @ combined_output) w4)"

subsection \<open>Notions used to state the properties\<close>

text \<open>
  The closed form of one pass of the loop over the patterns, for the directory \<open>root\<close>
  with the file names \<open>files\<close>.
\<close>

definition selected :: "(string \<Rightarrow> string \<Rightarrow> bool) \<Rightarrow> string list \<Rightarrow> string \<Rightarrow> string list \<Rightarrow> string list" where
  "selected fnm patterns root files =
     concat (map (\<lambda>pat. map (os_path_join root)
                          (filter (\<lambda>f. f \<notin> IGNORE_FILES) (fnmatch_filter fnm files pat)))
                 patterns)"

text \<open>The inclusion test on a visited directory, as a predicate.\<close>

definition eligible :: "string list \<Rightarrow> string list \<Rightarrow> bool" where
  "eligible dirs_include rel_list \<longleftrightarrow> (\<exists>d \<in> set dirs_include. prefix d (relpath rel_list))"

fun dir_matches :: "(string \<Rightarrow> string \<Rightarrow> bool) \<Rightarrow> string list \<Rightarrow> string list \<Rightarrow> walk_item \<Rightarrow> string list" where
  "dir_matches fnm dirs_include patterns (root, rel_list, dirs, files) =
     (if eligible dirs_include rel_list then selected fnm patterns root files else [])"

text \<open>
  Every file that a path from the top of the tree leads to: the directory names on the
  way, the name of the file, and whether one of these directories below the top is a
  symbolic link. This does not look at the ignore sets.
\<close>

fun tree_files :: "node \<Rightarrow> (string list \<times> string \<times> bool) list" where
  "tree_files (Fail error) = []"
| "tree_files (Link target) = tree_files target"
| "tree_files (Dir nondirs subs) =
     map (\<lambda>f. ([], f, False)) nondirs @
     concat (map (\<lambda>(dirname, sub).
                    map (\<lambda>(parts, f, linked). (dirname # parts, f, linked \<or> islink sub))
                        (tree_files sub))
                 subs)"

text \<open>
  The name of a directory as the last component of its path (\<open>os.path.basename\<close>): what
  follows the last separator.
\<close>

definition basename :: "string \<Rightarrow> string" where
  "basename p = rev (takeWhile (\<lambda>c. c \<noteq> CHR ''/'') (rev p))"

text \<open>
  A tree without the sub-directories that cannot be listed, at every depth below the top.
\<close>

fun listable_part :: "node \<Rightarrow> node" where
  "listable_part (Fail error) = Fail error"
| "listable_part (Link target) = Link (listable_part target)"
| "listable_part (Dir nondirs subs) =
     Dir nondirs (map (\<lambda>(dirname, sub). (dirname, listable_part sub))
                      (filter (\<lambda>(dirname, sub). listable sub) subs))"

text \<open>
  The order the specification words for the result: directory after directory in the
  order of the walk and, inside an eligible directory, the selected file names in the
  order the directory enumerates them.
\<close>

definition enumeration_order ::
  "(string \<Rightarrow> string \<Rightarrow> bool) \<Rightarrow> string list \<Rightarrow> string list \<Rightarrow> walk_item list \<Rightarrow> string list" where
  "enumeration_order fnm dirs_include patterns items =
     concat (map (\<lambda>(root, rel_list, dirs, files).
                    if \<exists>d \<in> set dirs_include. prefix d (relpath rel_list)
                    then map (os_path_join root)
                           (filter (\<lambda>f. (\<exists>pat \<in> set patterns. fnm f pat) \<and> f \<notin> IGNORE_FILES) files)
                    else [])
                 items)"

text \<open>
  Names as a file system has them: not empty and without a separator; and a tree in
  which the file names of a directory are pairwise different, and so are the names of
  its sub-directories.
\<close>

definition valid_name :: "string \<Rightarrow> bool" where
  "valid_name name \<longleftrightarrow> name \<noteq> [] \<and> CHR ''/'' \<notin> set name"

fun wf_tree :: "node \<Rightarrow> bool" where
  "wf_tree (Fail error) = True"
| "wf_tree (Link target) = wf_tree target"
| "wf_tree (Dir nondirs subs) =
     (distinct nondirs \<and> distinct (map fst subs) \<and> list_all valid_name nondirs \<and>
      list_all (\<lambda>(dirname, sub). valid_name dirname \<and> wf_tree sub) subs)"

text \<open>
  A base path as a prefix of the paths below it: with a separator at its end, unless it
  is empty.
\<close>

definition stem :: "string \<Rightarrow> string" where
  "stem b = (if b = [] \<or> suffix ''/'' b then b else b @ ''/'')"






text \<open>The texts of 7-bit characters, which the usual encodings accept.\<close>

definition ascii :: "string \<Rightarrow> bool" where
  "ascii text = list_all (\<lambda>c. \<not> digit7 c) text"

text \<open>The tree of the scenario of the specification, and small trees for concrete runs.\<close>

definition scenario :: node where
  "scenario =
     Dir [''package.json'']
       [(''src'', Dir []
           [(''lib'', Dir [''a.ts''] [(''.git'', Dir [''c.ts''] [])]),
            (''components'', Dir [''b.tsx''] [])]),
        (''node_modules'', Dir [''d.ts''] [])]"


definition two_files :: node where
  "two_files = Dir [] [(''src'', Dir [] [(''ai'', Dir [''a.py'', ''b.ts''] [])])]"

definition unreadable_sub :: node where
  "unreadable_sub =
     Dir [] [(''src'', Dir [] [(''ai'', Fail PermissionError), (''lib'', Dir [''a.ts''] [])])]"

text \<open>A tree in which \<open>src/lib\<close> is a symbolic link to a directory that holds \<open>a.ts\<close>.\<close>

definition linked_lib :: node where
  "linked_lib = Dir [] [(''src'', Dir [] [(''lib'', Link (Dir [''a.ts''] []))])]"


definition empty_world :: world where
  "empty_world =
     \<lparr>cwd = Inr ''/repo'', cwd_tree = Dir [] [], contents = Map.empty, refused = Map.empty,
      write_error = Map.empty, file_encodes = ascii, stdout = [], stdout_encodes = ascii,
      stdout_error = None\<rparr>"


section \<open>Properties\<close>

subsection \<open>The loops in closed form\<close>

lemma filename_loop_eq:
  "filename_loop root names matches =
     matches @ map (os_path_join root) (filter (\<lambda>f. f \<notin> IGNORE_FILES) names)"
  by (induction names arbitrary: matches) simp_all

lemma pattern_loop_eq:
  "pattern_loop fnm root files patterns matches = matches @ selected fnm patterns root files"
  by (induction patterns arbitrary: matches) (simp_all add: selected_def filename_loop_eq)

lemma walk_loop_eq:
  "walk_loop fnm dirs_include patterns items matches =
     matches @ concat (map (dir_matches fnm dirs_include patterns) items)"
  by (induction items arbitrary: matches)
     (auto simp: pattern_loop_eq eligible_def list_ex_iff)

lemma collect_paths_eq:
  "collect_paths fnm base_dir tree dirs_include patterns =
     concat (map (dir_matches fnm dirs_include patterns)
                 (os_walk (\<lambda>d. d \<notin> IGNORE_DIRS) base_dir [] tree))"
  by (simp add: collect_paths_def walk_loop_eq)

lemma set_selected:
  "set (selected fnm patterns root files) =
     {os_path_join root f | f. f \<in> set files \<and> f \<notin> IGNORE_FILES \<and> (\<exists>pat \<in> set patterns. fnm f pat)}"
  by (auto simp: selected_def fnmatch_filter_def)

lemma selected_no_patterns: "selected fnm [] root files = []"
  by (simp add: selected_def)

lemma dir_matches_no_dirs: "dir_matches fnm [] patterns item = []"
  by (cases item) (simp add: eligible_def)

lemma dir_matches_no_patterns: "dir_matches fnm dirs_include [] item = []"
  by (cases item) (simp add: selected_no_patterns)

subsection \<open>What the walk visits\<close>

text \<open>
  The walk in terms of \<open>scandir\<close>: a directory whose listing raises yields nothing, and
  nothing is raised.
\<close>

lemma os_walk_scandir:
  "os_walk keep dirpath rel_list t =
     (case scandir t of
        Inl error \<Rightarrow> []
      | Inr (nondirs, subs) \<Rightarrow>
          (dirpath, rel_list, map fst subs, nondirs) #
          concat (map (\<lambda>(dirname, sub).
                         os_walk keep (os_path_join dirpath dirname) (rel_list @ [dirname]) sub)
                      (filter (\<lambda>(dirname, sub). keep dirname \<and> \<not> islink sub) subs)))"
  by (induction t) simp_all

text \<open>
  Every item of the walk is a directory reached from the top through kept names only and
  through no symbolic link below the top, its \<open>root\<close> is the top joined with these names,
  and its files are files of the tree.
\<close>

lemma walk_item_sound:
  "(root, rl, dirs, files) \<in> set (os_walk keep dirpath rel_list tree) \<Longrightarrow>
     \<exists>parts. rl = rel_list @ parts \<and> root = foldl os_path_join dirpath parts \<and>
             (\<forall>c \<in> set parts. keep c) \<and>
             (\<forall>f \<in> set files. (parts, f, False) \<in> set (tree_files tree))"
proof (induction keep dirpath rel_list tree arbitrary: root rl dirs files rule: os_walk.induct)
  case (1 keep dirpath rel_list error)
  then show ?case by simp
next
  case (2 keep dirpath rel_list target)
  then show ?case by simp
next
  case (3 keep dirpath rel_list nondirs subs)
  from "3.prems" consider
    (here) "root = dirpath" "rl = rel_list" "files = nondirs"
  | (below) dirname sub where "(dirname, sub) \<in> set subs" "keep dirname" "\<not> islink sub"
      "(root, rl, dirs, files) \<in> set (os_walk keep (os_path_join dirpath dirname) (rel_list @ [dirname]) sub)"
    by auto
  then show ?case
  proof cases
    case here
    then show ?thesis by (intro exI[of _ "[]"]) auto
  next
    case below
    from "3.IH"[of "(dirname, sub)" dirname sub root rl dirs files] below
    obtain parts where p: "rl = (rel_list @ [dirname]) @ parts"
      "root = foldl os_path_join (os_path_join dirpath dirname) parts"
      "\<forall>c \<in> set parts. keep c" "\<forall>f \<in> set files. (parts, f, False) \<in> set (tree_files sub)"
      by auto
    show ?thesis
      using p below(1,2,3) by (intro exI[of _ "dirname # parts"]) force
  qed
qed

text \<open>
  Conversely, every file of the tree below kept names only and below no symbolic link is
  in an item of the walk.
\<close>

lemma walk_item_complete:
  "(parts, f, False) \<in> set (tree_files tree) \<Longrightarrow> \<forall>c \<in> set parts. keep c \<Longrightarrow>
     \<exists>dirs files. (foldl os_path_join dirpath parts, rel_list @ parts, dirs, files)
                    \<in> set (os_walk keep dirpath rel_list tree) \<and> f \<in> set files"
proof (induction keep dirpath rel_list tree arbitrary: parts rule: os_walk.induct)
  case (1 keep dirpath rel_list error)
  then show ?case by simp
next
  case (2 keep dirpath rel_list target)
  then show ?case by simp
next
  case (3 keep dirpath rel_list nondirs subs)
  from "3.prems"(1) consider
    (here) "parts = []" "f \<in> set nondirs"
  | (below) dirname sub parts' where "(dirname, sub) \<in> set subs" "parts = dirname # parts'"
      "(parts', f, False) \<in> set (tree_files sub)" "\<not> islink sub"
  proof -
    from "3.prems"(1) have "(parts = [] \<and> f \<in> set nondirs) \<or>
        (\<exists>dirname sub parts' linked. (dirname, sub) \<in> set subs \<and>
           (parts', f, linked) \<in> set (tree_files sub) \<and>
           parts = dirname # parts' \<and> \<not> (linked \<or> islink sub))"
      by auto
    then have "(parts = [] \<and> f \<in> set nondirs) \<or>
        (\<exists>dirname sub parts'. (dirname, sub) \<in> set subs \<and>
           (parts', f, False) \<in> set (tree_files sub) \<and>
           parts = dirname # parts' \<and> \<not> islink sub)"
      by (metis (full_types))
    with that show ?thesis by blast
  qed
  then show ?case
  proof cases
    case here
    then show ?thesis by auto
  next
    case below
    with "3.prems"(2) have k: "keep dirname" "\<forall>c \<in> set parts'. keep c" by auto
    from "3.IH"[of "(dirname, sub)" dirname sub parts'] below k
    obtain dirs files where
      "(foldl os_path_join (os_path_join dirpath dirname) parts', (rel_list @ [dirname]) @ parts', dirs, files)
         \<in> set (os_walk keep (os_path_join dirpath dirname) (rel_list @ [dirname]) sub)" "f \<in> set files"
      by auto
    then show ?thesis using below(1,2,4) k(1) by force
  qed
qed

lemma concat_map_concat:
  "concat (map f (concat xss)) = concat (map (\<lambda>xs. concat (map f xs)) xss)"
  by (induction xss) simp_all

lemma collect_Dir:
  "concat (map (dir_matches fnm dirs_include patterns) (os_walk keep dirpath rel_list (Dir nondirs subs))) =
     dir_matches fnm dirs_include patterns (dirpath, rel_list, [], nondirs) @
     concat (map (\<lambda>(dirname, sub).
                    concat (map (dir_matches fnm dirs_include patterns)
                              (os_walk keep (os_path_join dirpath dirname) (rel_list @ [dirname]) sub)))
                 (filter (\<lambda>(dirname, sub). keep dirname \<and> \<not> islink sub) subs))"
  by (simp add: concat_map_concat comp_def case_prod_unfold)

lemma listable_part_islink: "islink (listable_part sub) = islink sub"
  by (cases sub) simp_all

lemma collect_listable_part:
  "concat (map (dir_matches fnm dirs_include patterns) (os_walk keep dirpath rel_list (listable_part tree))) =
   concat (map (dir_matches fnm dirs_include patterns) (os_walk keep dirpath rel_list tree))"
proof (induction keep dirpath rel_list tree rule: os_walk.induct)
  case (1 keep dirpath rel_list error)
  then show ?case by simp
next
  case (2 keep dirpath rel_list target)
  then show ?case by simp
next
  case (3 keep dirpath rel_list nondirs subs)
  let ?C = "\<lambda>dirname sub. concat (map (dir_matches fnm dirs_include patterns)
              (os_walk keep (os_path_join dirpath dirname) (rel_list @ [dirname]) sub))"
  have ih: "?C dirname (listable_part sub) = ?C dirname sub"
    if "(dirname, sub) \<in> set subs" "keep dirname" "\<not> islink sub" for dirname sub
    using "3.IH"[of "(dirname, sub)" dirname sub] that by simp
  have "concat (map (\<lambda>(dirname, sub). ?C dirname sub)
          (filter (\<lambda>(dirname, sub). keep dirname \<and> \<not> islink sub)
             (map (\<lambda>(dirname, sub). (dirname, listable_part sub))
                (filter (\<lambda>(dirname, sub). listable sub) xs)))) =
        concat (map (\<lambda>(dirname, sub). ?C dirname sub)
          (filter (\<lambda>(dirname, sub). keep dirname \<and> \<not> islink sub) xs))"
    if "set xs \<subseteq> set subs" for xs
    using that
  proof (induction xs)
    case Nil
    then show ?case by simp
  next
    case (Cons x xs)
    obtain dirname sub where x: "x = (dirname, sub)" by (cases x)
    show ?case
    proof (cases sub)
      case (Fail error)
      with Cons x show ?thesis by simp
    next
      case (Dir nd sb)
      with Cons x ih[of dirname sub] show ?thesis by auto
    next
      case (Link target)
      with Cons x show ?thesis by (simp add: listable_part_islink)
    qed
  qed
  from this[of subs] show ?case
    unfolding listable_part.simps collect_Dir by simp
qed

lemma collect_paths_mem:
  "p \<in> set (collect_paths fnm base_dir tree dirs_include patterns) \<longleftrightarrow>
     (\<exists>parts f. (parts, f, False) \<in> set (tree_files tree) \<and>
        p = os_path_join (foldl os_path_join base_dir parts) f \<and>
        (\<exists>d \<in> set dirs_include. prefix d (relpath parts)) \<and>
        (\<exists>pat \<in> set patterns. fnm f pat) \<and>
        f \<notin> IGNORE_FILES \<and>
        (\<forall>c \<in> set parts. c \<notin> IGNORE_DIRS))"
  (is "?L \<longleftrightarrow> ?R")
proof
  assume ?L
  then obtain root rl dirs files where
    item: "(root, rl, dirs, files) \<in> set (os_walk (\<lambda>d. d \<notin> IGNORE_DIRS) base_dir [] tree)"
    and p: "p \<in> set (dir_matches fnm dirs_include patterns (root, rl, dirs, files))"
    by (auto simp: collect_paths_eq)
  from p have el: "eligible dirs_include rl" and "p \<in> set (selected fnm patterns root files)"
    by (auto split: if_splits)
  then obtain f where f: "p = os_path_join root f" "f \<in> set files" "f \<notin> IGNORE_FILES"
    "\<exists>pat \<in> set patterns. fnm f pat"
    by (auto simp: set_selected)
  from walk_item_sound[OF item] f(2)
  have "root = foldl os_path_join base_dir rl" "\<forall>c \<in> set rl. c \<notin> IGNORE_DIRS"
    "(rl, f, False) \<in> set (tree_files tree)"
    by auto
  with f el show ?R unfolding eligible_def by blast
next
  assume ?R
  then obtain parts f where r: "(parts, f, False) \<in> set (tree_files tree)"
    "p = os_path_join (foldl os_path_join base_dir parts) f"
    "\<exists>d \<in> set dirs_include. prefix d (relpath parts)"
    "\<exists>pat \<in> set patterns. fnm f pat" "f \<notin> IGNORE_FILES"
    "\<forall>c \<in> set parts. c \<notin> IGNORE_DIRS"
    by blast
  from walk_item_complete[OF r(1), of "\<lambda>d. d \<notin> IGNORE_DIRS" base_dir "[]"] r(6)
  obtain dirs files where
    item: "(foldl os_path_join base_dir parts, parts, dirs, files)
             \<in> set (os_walk (\<lambda>d. d \<notin> IGNORE_DIRS) base_dir [] tree)"
    and f: "f \<in> set files"
    by auto
  have "p \<in> set (dir_matches fnm dirs_include patterns
                   (foldl os_path_join base_dir parts, parts, dirs, files))"
    using r f by (auto simp: eligible_def set_selected)
  with item show ?L unfolding collect_paths_eq set_concat set_map by blast
qed

text \<open>Unfolding rules for runs on concrete trees.\<close>

lemmas eval_simps =
  collect_paths_def os_path_join_def relpath_def fnmatch_filter_def suffix_to_prefix
  IGNORE_DIRS_def IGNORE_FILES_def LOGIC_DIRS_def STYLE_DIRS_def LOGIC_PATTERNS_def

subsection \<open>Which files are collected\<close>

text \<open>
  Claim C1, as amended. A path is in the result of \<open>collect_paths\<close> exactly when it is the
  path of a file of the tree (the base directory joined with the names of the
  directories down to the file and with the file name) such that (a) the relative path
  of its directory starts with one of the included prefixes, (b) its name matches one of
  the patterns, (c) its name is not in \<open>IGNORE_FILES\<close>, (d) none of the directory names
  between the base and the file is in \<open>IGNORE_DIRS\<close>, at whatever depth, and (e) none of
  the directories between the base and the file is a symbolic link: the walk lists a
  link to a directory and does not descend into it.
\<close>

theorem collect_paths_iff:
  "p \<in> set (collect_paths fnm base_dir tree dirs_include patterns) \<longleftrightarrow>
     (\<exists>parts f. (parts, f, False) \<in> set (tree_files tree) \<and>
        p = os_path_join (foldl os_path_join base_dir parts) f \<and>
        (\<exists>d \<in> set dirs_include. prefix d (relpath parts)) \<and>
        (\<exists>pat \<in> set patterns. fnm f pat) \<and>
        f \<notin> IGNORE_FILES \<and>
        (\<forall>c \<in> set parts. c \<notin> IGNORE_DIRS))"
  by (rule collect_paths_mem)

text \<open>
  In the scenario of the specification the file \<open>src/lib/a.ts\<close> meets (a) to (e), so it is
  collected.
\<close>

theorem collect_paths_iff_witness:
  "''/repo/src/lib/a.ts'' \<in> set (collect_paths fnmatchcase ''/repo'' scenario LOGIC_DIRS LOGIC_PATTERNS)"
proof -
  have "\<exists>parts f. (parts, f, False) \<in> set (tree_files scenario) \<and>
        ''/repo/src/lib/a.ts'' = os_path_join (foldl os_path_join ''/repo'' parts) f \<and>
        (\<exists>d \<in> set LOGIC_DIRS. prefix d (relpath parts)) \<and>
        (\<exists>pat \<in> set LOGIC_PATTERNS. fnmatchcase f pat) \<and>
        f \<notin> IGNORE_FILES \<and>
        (\<forall>c \<in> set parts. c \<notin> IGNORE_DIRS)"
    by (rule exI[of _ "[''src'', ''lib'']"], rule exI[of _ "''a.ts''"])
       (simp add: scenario_def eval_simps)
  then show ?thesis
    by (simp only: collect_paths_iff)
qed

text \<open>
  The claim as stated, with (a) to (d) only, fails where \<open>src/lib\<close> is a symbolic link to
  a directory: the file \<open>src/lib/a.ts\<close> meets (a) to (d), and nothing is collected.
\<close>

theorem collect_paths_iff_counterexample:
  "([''src'', ''lib''], ''a.ts'', True) \<in> set (tree_files linked_lib) \<and>
   ''/repo/src/lib/a.ts'' = os_path_join (foldl os_path_join ''/repo'' [''src'', ''lib'']) ''a.ts'' \<and>
   ''src/lib'' \<in> set LOGIC_DIRS \<and> prefix ''src/lib'' (relpath [''src'', ''lib'']) \<and>
   ''*.ts'' \<in> set LOGIC_PATTERNS \<and> fnmatchcase ''a.ts'' ''*.ts'' \<and>
   ''a.ts'' \<notin> IGNORE_FILES \<and> ''src'' \<notin> IGNORE_DIRS \<and> ''lib'' \<notin> IGNORE_DIRS \<and>
   collect_paths fnmatchcase ''/repo'' linked_lib LOGIC_DIRS LOGIC_PATTERNS = []"
  by (simp add: linked_lib_def eval_simps)

subsection \<open>The base directory itself is never pruned\<close>

text \<open>
  Claim C10. The test against \<open>IGNORE_DIRS\<close> is applied to the names in \<open>dirs\<close>, that is to
  sub-directories met during the walk, never to the base directory. When the name of
  \<open>base_dir\<close> itself is in \<open>IGNORE_DIRS\<close>, the walk still starts with the item of the base
  directory and goes on into its kept sub-directories, and the files collected below it
  are those that meet (a) to (e) of claim C1.
\<close>

theorem ignored_base_dir_scanned:
  assumes "basename base_dir \<in> IGNORE_DIRS"
  shows "os_walk (\<lambda>d. d \<notin> IGNORE_DIRS) base_dir [] (Dir nondirs subs) =
           (base_dir, [], map fst subs, nondirs) #
           concat (map (\<lambda>(dirname, sub).
                          os_walk (\<lambda>d. d \<notin> IGNORE_DIRS) (os_path_join base_dir dirname) [dirname] sub)
                       (filter (\<lambda>(dirname, sub). dirname \<notin> IGNORE_DIRS \<and> \<not> islink sub) subs)) \<and>
         (p \<in> set (collect_paths fnm base_dir tree dirs_include patterns) \<longleftrightarrow>
           (\<exists>parts f. (parts, f, False) \<in> set (tree_files tree) \<and>
              p = os_path_join (foldl os_path_join base_dir parts) f \<and>
              (\<exists>d \<in> set dirs_include. prefix d (relpath parts)) \<and>
              (\<exists>pat \<in> set patterns. fnm f pat) \<and>
              f \<notin> IGNORE_FILES \<and>
              (\<forall>c \<in> set parts. c \<notin> IGNORE_DIRS)))"
  by (simp add: collect_paths_mem)

text \<open>A base directory named \<open>node_modules\<close>: the file \<open>src/lib/a.ts\<close> below it is collected.\<close>

theorem ignored_base_dir_scanned_witness:
  "basename ''/work/node_modules'' \<in> IGNORE_DIRS \<and>
   ''/work/node_modules/src/lib/a.ts''
     \<in> set (collect_paths fnmatchcase ''/work/node_modules'' scenario LOGIC_DIRS LOGIC_PATTERNS)"
proof -
  have b: "basename ''/work/node_modules'' \<in> IGNORE_DIRS"
    by (simp add: basename_def IGNORE_DIRS_def)
  have "\<exists>parts f. (parts, f, False) \<in> set (tree_files scenario) \<and>
        ''/work/node_modules/src/lib/a.ts'' = os_path_join (foldl os_path_join ''/work/node_modules'' parts) f \<and>
        (\<exists>d \<in> set LOGIC_DIRS. prefix d (relpath parts)) \<and>
        (\<exists>pat \<in> set LOGIC_PATTERNS. fnmatchcase f pat) \<and>
        f \<notin> IGNORE_FILES \<and>
        (\<forall>c \<in> set parts. c \<notin> IGNORE_DIRS)"
    by (rule exI[of _ "[''src'', ''lib'']"], rule exI[of _ "''a.ts''"])
       (simp add: scenario_def eval_simps)
  then have "''/work/node_modules/src/lib/a.ts''
     \<in> set (collect_paths fnmatchcase ''/work/node_modules'' scenario LOGIC_DIRS LOGIC_PATTERNS)"
    using ignored_base_dir_scanned[OF b, THEN conjunct2] by blast
  with b show ?thesis by simp
qed

subsection \<open>Empty prefix list, empty pattern list\<close>

text \<open>
  Claim C7. With an empty list of included prefixes no directory passes the inclusion
  test, and with an empty list of patterns the loop over the patterns never runs: in
  both cases \<open>collect_paths\<close> returns the empty list, on every tree.
\<close>

theorem collect_paths_empty_args:
  "collect_paths fnm base_dir tree [] patterns = [] \<and>
   collect_paths fnm base_dir tree dirs_include [] = []"
  by (simp add: collect_paths_eq dir_matches_no_dirs dir_matches_no_patterns)

subsection \<open>Files directly in the base directory\<close>

lemma root_not_eligible:
  "\<not> eligible LOGIC_DIRS [] \<and> \<not> eligible (LOGIC_DIRS @ STYLE_DIRS) []"
  by (simp add: eligible_def relpath_def LOGIC_DIRS_def STYLE_DIRS_def)

text \<open>
  Claim C9. The relative path of the base directory itself is \<open>.\<close>, and no prefix of
  \<open>LOGIC_DIRS\<close> or \<open>STYLE_DIRS\<close> is a prefix of it. So with the configured prefix lists the
  files directly in the base directory are never collected, whatever their names: the
  result is the one for the same tree with no file at the top.
\<close>

theorem root_files_excluded:
  "relpath [] = ''.'' \<and>
   collect_paths fnm base_dir (Dir nondirs subs) LOGIC_DIRS patterns =
     collect_paths fnm base_dir (Dir [] subs) LOGIC_DIRS patterns \<and>
   collect_paths fnm base_dir (Dir nondirs subs) (LOGIC_DIRS @ STYLE_DIRS) patterns =
     collect_paths fnm base_dir (Dir [] subs) (LOGIC_DIRS @ STYLE_DIRS) patterns"
  unfolding collect_paths_eq collect_Dir
  by (simp add: root_not_eligible relpath_def)

text \<open>A file \<open>index.ts\<close> at the top matches \<open>*.ts\<close> and is not ignored, yet it is not collected.\<close>

theorem root_files_excluded_witness:
  "collect_paths fnmatchcase ''/repo'' (Dir [''index.ts''] [(''src'', Dir [] [(''lib'', Dir [''a.ts''] [])])])
     (LOGIC_DIRS @ STYLE_DIRS) LOGIC_PATTERNS = [''/repo/src/lib/a.ts'']"
proof -
  let ?subs = "[(''src'', Dir [] [(''lib'', Dir [''a.ts''] [])])]"
  from root_files_excluded[of fnmatchcase "''/repo''" "[''index.ts'']" ?subs LOGIC_PATTERNS]
  have "collect_paths fnmatchcase ''/repo'' (Dir [''index.ts''] ?subs) (LOGIC_DIRS @ STYLE_DIRS) LOGIC_PATTERNS =
        collect_paths fnmatchcase ''/repo'' (Dir [] ?subs) (LOGIC_DIRS @ STYLE_DIRS) LOGIC_PATTERNS"
    by (rule conjunct2[THEN conjunct2])
  also have "\<dots> = [''/repo/src/lib/a.ts'']"
    by (simp add: eval_simps)
  finally show ?thesis .
qed

subsection \<open>The inclusion test is a plain string prefix\<close>

text \<open>
  Claim C6. A visited directory contributes its selected files exactly when its relative
  path starts, character by character, with one of the included prefixes. Path
  components play no part: with the prefix \<open>src/ai\<close> the directory \<open>src/ai-something\<close> is
  eligible just as \<open>src/ai\<close> is.
\<close>

theorem eligible_is_string_prefix:
  "walk_loop fnm dirs_include patterns [(root, rel_list, dirs, files)] [] =
     (if \<exists>d \<in> set dirs_include. prefix d (relpath rel_list)
      then selected fnm patterns root files else [])"
  by (simp add: walk_loop_eq eligible_def)

text \<open>
  With the prefix \<open>src/ai\<close>: the directories \<open>src/ai-something\<close> and \<open>src/ai\<close> are eligible,
  the directory \<open>src/a\<close> is not.
\<close>

theorem eligible_is_string_prefix_witness:
  "walk_loop fnmatchcase [''src/ai''] [''*.ts''] [(''/repo/src/ai-something'', [''src'', ''ai-something''], [], [''x.ts''])] []
     = [''/repo/src/ai-something/x.ts''] \<and>
   walk_loop fnmatchcase [''src/ai''] [''*.ts''] [(''/repo/src/ai'', [''src'', ''ai''], [], [''y.ts''])] []
     = [''/repo/src/ai/y.ts''] \<and>
   walk_loop fnmatchcase [''src/ai''] [''*.ts''] [(''/repo/src/a'', [''src'', ''a''], [], [''z.ts''])] [] = []"
  unfolding eligible_is_string_prefix
  by (simp add: selected_def eval_simps)

subsection \<open>The order of the result\<close>

text \<open>
  Claim C5, as amended. The result lists the directories in the order of the walk. The
  files of one eligible directory are listed pattern by pattern, in the order of the
  pattern list, and for one pattern in the order the directory enumerates them. With at
  most one pattern that is the order of enumeration of the directory.
\<close>

theorem collect_paths_order:
  "collect_paths fnm base_dir tree dirs_include patterns =
     concat (map (\<lambda>(root, rel_list, dirs, files).
                    if \<exists>d \<in> set dirs_include. prefix d (relpath rel_list)
                    then concat (map (\<lambda>pat. map (os_path_join root)
                                  (filter (\<lambda>f. fnm f pat \<and> f \<notin> IGNORE_FILES) files)) patterns)
                    else [])
                 (os_walk (\<lambda>d. d \<notin> IGNORE_DIRS) base_dir [] tree)) \<and>
   (length patterns \<le> 1 \<longrightarrow>
      collect_paths fnm base_dir tree dirs_include patterns =
        enumeration_order fnm dirs_include patterns (os_walk (\<lambda>d. d \<notin> IGNORE_DIRS) base_dir [] tree))"
proof -
  have blk: "dir_matches fnm dirs_include patterns =
     (\<lambda>(root, rel_list, dirs, files).
                    if \<exists>d \<in> set dirs_include. prefix d (relpath rel_list)
                    then concat (map (\<lambda>pat. map (os_path_join root)
                                  (filter (\<lambda>f. fnm f pat \<and> f \<notin> IGNORE_FILES) files)) patterns)
                    else [])"
    by (auto simp: fun_eq_iff eligible_def selected_def fnmatch_filter_def conj_commute)
  have one: "dir_matches fnm dirs_include patterns =
     (\<lambda>(root, rel_list, dirs, files).
                    if \<exists>d \<in> set dirs_include. prefix d (relpath rel_list)
                    then map (os_path_join root)
                           (filter (\<lambda>f. (\<exists>pat \<in> set patterns. fnm f pat) \<and> f \<notin> IGNORE_FILES) files)
                    else [])" if "length patterns \<le> 1"
  proof (cases patterns)
    case Nil
    then show ?thesis by (auto simp: fun_eq_iff eligible_def selected_def)
  next
    case (Cons pat rest)
    with that have "patterns = [pat]" by simp
    then show ?thesis
      by (auto simp: fun_eq_iff eligible_def selected_def fnmatch_filter_def conj_commute)
  qed
  show ?thesis
    unfolding collect_paths_eq enumeration_order_def using blk one by simp
qed

text \<open>
  With the single pattern \<open>*.*\<close> the two files of \<open>src/ai\<close> come in the order of their
  enumeration.
\<close>

theorem collect_paths_order_witness:
  "collect_paths fnmatchcase ''/repo'' two_files LOGIC_DIRS [''*.*''] =
     [''/repo/src/ai/a.py'', ''/repo/src/ai/b.ts'']"
proof -
  have "length [''*.*''] \<le> 1" by simp
  with collect_paths_order[of fnmatchcase "''/repo''" two_files LOGIC_DIRS "[''*.*'']"]
  have "collect_paths fnmatchcase ''/repo'' two_files LOGIC_DIRS [''*.*''] =
        enumeration_order fnmatchcase LOGIC_DIRS [''*.*'']
          (os_walk (\<lambda>d. d \<notin> IGNORE_DIRS) ''/repo'' [] two_files)"
    by blast
  also have "\<dots> = [''/repo/src/ai/a.py'', ''/repo/src/ai/b.ts'']"
    by (simp add: two_files_def enumeration_order_def eval_simps)
  finally show ?thesis .
qed

text \<open>
  The claim as stated fails with the patterns of the script: the directory \<open>src/ai\<close>
  enumerates \<open>a.py\<close> before \<open>b.ts\<close>, and the result lists \<open>b.ts\<close> first, because \<open>*.ts\<close> comes
  before \<open>*.py\<close> in \<open>LOGIC_PATTERNS\<close>.
\<close>

theorem collect_paths_order_counterexample:
  "os_walk (\<lambda>d. d \<notin> IGNORE_DIRS) ''/repo'' [] two_files =
     [(''/repo'', [], [''src''], []),
      (''/repo/src'', [''src''], [''ai''], []),
      (''/repo/src/ai'', [''src'', ''ai''], [], [''a.py'', ''b.ts''])] \<and>
   collect_paths fnmatchcase ''/repo'' two_files LOGIC_DIRS LOGIC_PATTERNS =
     [''/repo/src/ai/b.ts'', ''/repo/src/ai/a.py''] \<and>
   enumeration_order fnmatchcase LOGIC_DIRS LOGIC_PATTERNS
       (os_walk (\<lambda>d. d \<notin> IGNORE_DIRS) ''/repo'' [] two_files) =
     [''/repo/src/ai/a.py'', ''/repo/src/ai/b.ts''] \<and>
   collect_paths fnmatchcase ''/repo'' two_files LOGIC_DIRS LOGIC_PATTERNS \<noteq>
     enumeration_order fnmatchcase LOGIC_DIRS LOGIC_PATTERNS
       (os_walk (\<lambda>d. d \<notin> IGNORE_DIRS) ''/repo'' [] two_files)"
  by (simp add: two_files_def enumeration_order_def eval_simps)

subsection \<open>Directories that cannot be listed\<close>

text \<open>
  Claim C2, as amended. \<open>os.walk\<close> is called without \<open>onerror\<close>, so it drops the error of
  a directory it cannot list, and no statement of \<open>collect_paths\<close> raises: the call
  always returns a list. On a base directory that does not exist or cannot be read it
  returns the empty list. A sub-directory that cannot be listed, at any depth, is skipped
  and the scan goes on: the result is the one for the tree without such sub-directories.
\<close>

theorem collect_paths_unreadable:
  "collect_paths fnm base_dir (Fail error) dirs_include patterns = [] \<and>
   collect_paths fnm base_dir tree dirs_include patterns =
     collect_paths fnm base_dir (listable_part tree) dirs_include patterns"
  by (simp add: collect_paths_eq collect_listable_part)

text \<open>
  The claim as stated fails: listing a missing base directory raises, and the call
  returns the empty list; with \<open>src/ai\<close> unreadable, the file of \<open>src/lib\<close> is returned.
\<close>

theorem collect_paths_unreadable_counterexample:
  "scandir (Fail FileNotFoundError) = Inl FileNotFoundError \<and>
   collect_paths fnmatchcase ''/repo'' (Fail FileNotFoundError) LOGIC_DIRS LOGIC_PATTERNS = [] \<and>
   scandir (Fail PermissionError) = Inl PermissionError \<and>
   collect_paths fnmatchcase ''/repo'' unreadable_sub LOGIC_DIRS LOGIC_PATTERNS = [''/repo/src/lib/a.ts'']"
  by (simp add: unreadable_sub_def eval_simps)

subsection \<open>Paths of valid names\<close>

text \<open>
  Joining valid names onto a base gives the base, a separator, and the names separated
  by separators; the names can be read back from the path.
\<close>

lemma valid_name_not_sep: "valid_name n \<Longrightarrow> \<not> prefix ''/'' n"
  by (cases n) (auto simp: valid_name_def)

lemma join_valid: "valid_name n \<Longrightarrow> os_path_join a n = stem a @ n"
  by (simp add: os_path_join_def stem_def valid_name_not_sep)

lemma stem_join_valid: "valid_name n \<Longrightarrow> stem (stem a @ n) = stem a @ n @ ''/''"
proof -
  assume v: "valid_name n"
  then have ne: "n \<noteq> []" and "last n \<noteq> CHR ''/''"
    by (metis valid_name_def, metis last_in_set valid_name_def)
  then have "last (stem a @ n) \<noteq> CHR ''/''" by simp
  then have "\<not> suffix ''/'' (stem a @ n)"
    by (metis suffixE last_snoc)
  with ne show ?thesis by (simp add: stem_def[of "stem a @ n"])
qed

lemma foldl_join_valid:
  "list_all valid_name xs \<Longrightarrow> xs \<noteq> [] \<Longrightarrow> foldl os_path_join b xs = stem b @ sep_join xs"
proof (induction xs arbitrary: b)
  case Nil
  then show ?case by simp
next
  case (Cons x xs)
  show ?case
  proof (cases xs)
    case Nil
    with Cons.prems show ?thesis by (simp add: join_valid)
  next
    case (Cons y ys)
    with Cons.prems Cons.IH[of "os_path_join b x"] show ?thesis
      by (simp add: join_valid stem_join_valid)
  qed
qed

lemma takeWhile_no_sep:
  "CHR ''/'' \<notin> set x \<Longrightarrow> r = [] \<or> hd r = CHR ''/'' \<Longrightarrow>
     takeWhile (\<lambda>c. c \<noteq> CHR ''/'') (x @ r) = x"
  by (induction x) (cases r; auto)+

lemma takeWhile_name:
  "valid_name x \<Longrightarrow> r = [] \<or> hd r = CHR ''/'' \<Longrightarrow> takeWhile (\<lambda>c. c \<noteq> CHR ''/'') (x @ r) = x"
  by (simp add: valid_name_def takeWhile_no_sep)

lemma name_append_inj:
  assumes "valid_name x" "valid_name y" "x @ r = y @ r'"
    "r = [] \<or> hd r = CHR ''/''" "r' = [] \<or> hd r' = CHR ''/''"
  shows "x = y \<and> r = r'"
proof -
  have "takeWhile (\<lambda>c. c \<noteq> CHR ''/'') (x @ r) = x"
    using assms(1,4) by (rule takeWhile_name)
  moreover have "takeWhile (\<lambda>c. c \<noteq> CHR ''/'') (y @ r') = y"
    using assms(2,5) by (rule takeWhile_name)
  ultimately have "x = y" using assms(3) by simp
  with assms(3) show ?thesis by simp
qed

lemma sep_join_Cons: "sep_join (x # xs) = x @ (if xs = [] then [] else ''/'' @ sep_join xs)"
  by (cases xs) simp_all

lemma sep_join_inj:
  "list_all valid_name xs \<Longrightarrow> list_all valid_name ys \<Longrightarrow> sep_join xs = sep_join ys \<Longrightarrow> xs = ys"
proof (induction xs arbitrary: ys)
  case Nil
  then show ?case by (cases ys) (auto simp: sep_join_Cons valid_name_def)
next
  case (Cons x xs)
  show ?case
  proof (cases ys)
    case Nil
    with Cons.prems show ?thesis by (auto simp: sep_join_Cons valid_name_def)
  next
    case ys: (Cons y ys')
    let ?r = "if xs = [] then [] else ''/'' @ sep_join xs"
    let ?r' = "if ys' = [] then [] else ''/'' @ sep_join ys'"
    from Cons.prems ys have vx: "valid_name x" and vy: "valid_name y"
      and eq: "x @ ?r = y @ ?r'"
      by (simp_all add: sep_join_Cons)
    from name_append_inj[OF vx vy eq] have xy: "x = y" and r: "?r = ?r'" by auto
    from r have "xs = ys'"
    proof (cases "xs = []")
      case True
      with r show ?thesis by (auto split: if_splits)
    next
      case False
      with r have "ys' \<noteq> []" "sep_join xs = sep_join ys'" by (auto split: if_splits)
      with Cons.IH[of ys'] Cons.prems ys show ?thesis by simp
    qed
    with xy ys show ?thesis by simp
  qed
qed

lemma file_path_inj:
  assumes "list_all valid_name rl" "valid_name f" "list_all valid_name rl'" "valid_name f'"
    "os_path_join (foldl os_path_join b rl) f = os_path_join (foldl os_path_join b rl') f'"
  shows "rl = rl' \<and> f = f'"
proof -
  have "foldl os_path_join b (rl @ [f]) = foldl os_path_join b (rl' @ [f'])"
    using assms(5) by simp
  moreover have "foldl os_path_join b (rl @ [f]) = stem b @ sep_join (rl @ [f])"
    using assms(1,2) by (intro foldl_join_valid) simp_all
  moreover have "foldl os_path_join b (rl' @ [f']) = stem b @ sep_join (rl' @ [f'])"
    using assms(3,4) by (intro foldl_join_valid) simp_all
  ultimately have "sep_join (rl @ [f]) = sep_join (rl' @ [f'])" by simp
  moreover have "list_all valid_name (rl @ [f])" "list_all valid_name (rl' @ [f'])"
    using assms(1-4) by simp_all
  ultimately have "rl @ [f] = rl' @ [f']"
    using sep_join_inj by blast
  then show ?thesis by simp
qed

subsection \<open>Lists without repetition\<close>

lemma in_concat_mapD: "a \<in> set (concat (map g xs)) \<Longrightarrow> \<exists>x \<in> set xs. a \<in> set (g x)"
  by auto

lemma distinct_concat_map_key:
  assumes "distinct (map k xs)"
    and "\<And>x. x \<in> set xs \<Longrightarrow> distinct (g x)"
    and "\<And>x y a. x \<in> set xs \<Longrightarrow> y \<in> set xs \<Longrightarrow> a \<in> set (g x) \<Longrightarrow> a \<in> set (g y) \<Longrightarrow> k x = k y"
  shows "distinct (concat (map g xs))"
  using assms
proof (induction xs)
  case Nil
  then show ?case by simp
next
  case (Cons x xs)
  have "distinct (concat (map g xs))"
    using Cons.prems by (intro Cons.IH) auto
  moreover have "distinct (g x)" using Cons.prems(2) by simp
  moreover have "set (g x) \<inter> set (g y) = {}" if "y \<in> set xs" for y
  proof (rule ccontr)
    assume "set (g x) \<inter> set (g y) \<noteq> {}"
    then obtain a where "a \<in> set (g x)" "a \<in> set (g y)" by auto
    with Cons.prems(3)[of x y a] that have "k x = k y" by simp
    with Cons.prems(1) that show False by (auto simp: image_iff)
  qed
  ultimately show ?case by auto
qed

subsection \<open>The walk of a well-formed tree\<close>

lemma walk_wf_item:
  "wf_tree tree \<Longrightarrow> (root, rl, dirs, files) \<in> set (os_walk keep dirpath rel_list tree) \<Longrightarrow>
     \<exists>parts. rl = rel_list @ parts \<and> list_all valid_name parts \<and>
             distinct files \<and> list_all valid_name files"
proof (induction keep dirpath rel_list tree arbitrary: root rl dirs files rule: os_walk.induct)
  case (1 keep dirpath rel_list error)
  then show ?case by simp
next
  case (2 keep dirpath rel_list target)
  then show ?case by simp
next
  case (3 keep dirpath rel_list nondirs subs)
  from "3.prems"(2) consider
    (here) "rl = rel_list" "files = nondirs"
  | (below) dirname sub where "(dirname, sub) \<in> set subs" "keep dirname" "\<not> islink sub"
      "(root, rl, dirs, files) \<in> set (os_walk keep (os_path_join dirpath dirname) (rel_list @ [dirname]) sub)"
    by auto
  then show ?case
  proof cases
    case here
    with "3.prems"(1) show ?thesis by simp
  next
    case below
    from "3.prems"(1) below(1) have wf: "valid_name dirname" "wf_tree sub"
      by (auto simp: list_all_iff)
    from "3.IH"[of "(dirname, sub)" dirname sub root rl dirs files] below wf
    obtain parts where "rl = (rel_list @ [dirname]) @ parts" "list_all valid_name parts"
      "distinct files" "list_all valid_name files"
      by auto
    with wf(1) show ?thesis by (intro exI[of _ "dirname # parts"]) simp
  qed
qed

lemma walk_distinct_rel:
  "wf_tree tree \<Longrightarrow> distinct (map (\<lambda>item. fst (snd item)) (os_walk keep dirpath rel_list tree))"
proof (induction keep dirpath rel_list tree rule: os_walk.induct)
  case (1 keep dirpath rel_list error)
  then show ?case by simp
next
  case (2 keep dirpath rel_list target)
  then show ?case by simp
next
  case (3 keep dirpath rel_list nondirs subs)
  let ?W = "\<lambda>(dirname, sub). os_walk keep (os_path_join dirpath dirname) (rel_list @ [dirname]) sub"
  let ?kept = "filter (\<lambda>(dirname, sub). keep dirname \<and> \<not> islink sub) subs"
  let ?g = "\<lambda>x. map (\<lambda>item. fst (snd item)) (?W x)"
  have below: "\<exists>parts. rl = rel_list @ fst x # parts"
    if "x \<in> set ?kept" "rl \<in> set (?g x)" for x rl
  proof -
    obtain dirname sub where x: "x = (dirname, sub)" by (cases x)
    from that(2) x obtain root dirs files where
      "(root, rl, dirs, files) \<in> set (os_walk keep (os_path_join dirpath dirname) (rel_list @ [dirname]) sub)"
      by auto
    from walk_item_sound[OF this] x show ?thesis by auto
  qed
  have "distinct (concat (map ?g ?kept))"
  proof (rule distinct_concat_map_key[where k = fst])
    show "distinct (map fst ?kept)"
      using "3.prems" by (simp add: distinct_map_filter)
  next
    fix x assume x: "x \<in> set ?kept"
    obtain dirname sub where xe: "x = (dirname, sub)" by (cases x)
    with x "3.prems" have "wf_tree sub" by (auto simp: list_all_iff)
    with "3.IH"[of "(dirname, sub)" dirname sub] x show "distinct (?g x)"
      unfolding xe by simp
  next
    fix x y a
    assume "x \<in> set ?kept" "y \<in> set ?kept" "a \<in> set (?g x)" "a \<in> set (?g y)"
    with below[of x a] below[of y a] show "fst x = fst y" by auto
  qed
  moreover have "rel_list \<notin> set (concat (map ?g ?kept))"
  proof
    assume "rel_list \<in> set (concat (map ?g ?kept))"
    then obtain x where "x \<in> set ?kept" "rel_list \<in> set (?g x)"
      by (blast dest: in_concat_mapD)
    with below[of x rel_list] show False by simp
  qed
  moreover have "map (\<lambda>item. fst (snd item)) (os_walk keep dirpath rel_list (Dir nondirs subs)) =
      rel_list # concat (map ?g ?kept)"
    by (simp add: map_concat) (simp add: comp_def)
  ultimately show ?case
    by (simp only: distinct.simps simp_thms)
qed

subsection \<open>The patterns of the script\<close>

text \<open>
  A pattern \<open>*\<close> followed by literal characters matches the names that end with these
  characters. No name matches two of the patterns of \<open>LOGIC_PATTERNS\<close>.
\<close>

lemma fnmatchcase_literal:
  "CHR ''*'' \<notin> set lit \<Longrightarrow> CHR ''?'' \<notin> set lit \<Longrightarrow> fnmatchcase name lit \<longleftrightarrow> name = lit"
proof (induction lit arbitrary: name)
  case Nil
  then show ?case by (cases name) simp_all
next
  case (Cons p lit)
  then show ?case by (cases name) auto
qed

lemma fnmatchcase_star_literal:
  assumes "CHR ''*'' \<notin> set lit" "CHR ''?'' \<notin> set lit"
  shows "fnmatchcase name (CHR ''*'' # lit) \<longleftrightarrow> suffix lit name"
proof (induction name)
  case Nil
  show ?case using assms by (simp add: fnmatchcase_literal eq_commute)
next
  case (Cons c name)
  have "fnmatchcase (c # name) (CHR ''*'' # lit) \<longleftrightarrow>
        fnmatchcase (c # name) lit \<or> fnmatchcase name (CHR ''*'' # lit)"
    by simp
  also have "\<dots> \<longleftrightarrow> c # name = lit \<or> suffix lit name"
    using assms Cons.IH by (simp add: fnmatchcase_literal)
  also have "\<dots> \<longleftrightarrow> suffix lit (c # name)"
    by (auto simp: suffix_Cons)
  finally show ?case .
qed

lemma logic_patterns_suffix:
  "fnmatchcase f ''*.ts'' \<longleftrightarrow> suffix ''.ts'' f"
  "fnmatchcase f ''*.tsx'' \<longleftrightarrow> suffix ''.tsx'' f"
  "fnmatchcase f ''*.js'' \<longleftrightarrow> suffix ''.js'' f"
  "fnmatchcase f ''*.py'' \<longleftrightarrow> suffix ''.py'' f"
  by (rule fnmatchcase_star_literal; simp)+

lemma suffix_clash:
  "suffix a f \<Longrightarrow> suffix b f \<Longrightarrow> \<not> suffix a b \<Longrightarrow> \<not> suffix b a \<Longrightarrow> False"
  using suffix_same_cases by blast

lemma logic_patterns_no_overlap:
  assumes "p \<in> set LOGIC_PATTERNS" "q \<in> set LOGIC_PATTERNS" "fnmatchcase f p" "fnmatchcase f q"
  shows "p = q"
proof (rule ccontr)
  assume ne: "p \<noteq> q"
  have "\<exists>a. p = CHR ''*'' # a \<and> suffix a f \<and> a \<in> {''.ts'', ''.tsx'', ''.js'', ''.py''}"
    using assms(1,3) unfolding LOGIC_PATTERNS_def
    by (auto simp: logic_patterns_suffix simp del: fnmatchcase.simps)
  then obtain a where a: "p = CHR ''*'' # a" "suffix a f" "a \<in> {''.ts'', ''.tsx'', ''.js'', ''.py''}"
    by blast
  have "\<exists>b. q = CHR ''*'' # b \<and> suffix b f \<and> b \<in> {''.ts'', ''.tsx'', ''.js'', ''.py''}"
    using assms(2,4) unfolding LOGIC_PATTERNS_def
    by (auto simp: logic_patterns_suffix simp del: fnmatchcase.simps)
  then obtain b where b: "q = CHR ''*'' # b" "suffix b f" "b \<in> {''.ts'', ''.tsx'', ''.js'', ''.py''}"
    by blast
  from ne a(1) b(1) have "a \<noteq> b" by simp
  with a(3) b(3) have "\<not> suffix a b" "\<not> suffix b a"
    by (auto simp: suffix_to_prefix)
  with a(2) b(2) show False by (rule suffix_clash)
qed

subsection \<open>Repetitions in the result\<close>

lemma distinct_collect_paths:
  assumes wf: "wf_tree tree" and dp: "distinct patterns"
    and no_overlap: "\<forall>(parts, f, linked) \<in> set (tree_files tree). \<not> linked \<longrightarrow>
           (\<forall>p \<in> set patterns. \<forall>q \<in> set patterns. fnm f p \<and> fnm f q \<longrightarrow> p = q)"
  shows "distinct (collect_paths fnm base_dir tree dirs_include patterns)"
  unfolding collect_paths_eq
proof (rule distinct_concat_map_key[where k = "\<lambda>item. fst (snd item)"])
  let ?items = "os_walk (\<lambda>d. d \<notin> IGNORE_DIRS) base_dir [] tree"
  show "distinct (map (\<lambda>item. fst (snd item)) ?items)"
    using wf by (rule walk_distinct_rel)
  have item_facts: "root = foldl os_path_join base_dir rl \<and> list_all valid_name rl \<and>
      distinct files \<and> list_all valid_name files \<and> (\<forall>f \<in> set files. (rl, f, False) \<in> set (tree_files tree))"
    if "(root, rl, dirs, files) \<in> set ?items" for root rl dirs files
    using walk_item_sound[OF that] walk_wf_item[OF wf that] by auto
  have mem: "\<exists>f. a = os_path_join (foldl os_path_join base_dir rl) f \<and> f \<in> set files"
    if "(root, rl, dirs, files) \<in> set ?items"
      "a \<in> set (dir_matches fnm dirs_include patterns (root, rl, dirs, files))"
    for a root rl dirs files
    using that(2) item_facts[OF that(1)] by (auto simp: set_selected split: if_splits)
  {
    fix x assume x: "x \<in> set ?items"
    obtain root rl dirs files where xe: "x = (root, rl, dirs, files)" by (cases x)
    from item_facts[of root rl dirs files] x xe
    have df: "distinct files" and vf: "list_all valid_name files"
      and tf: "\<forall>f \<in> set files. (rl, f, False) \<in> set (tree_files tree)"
      by auto
    have inj: "inj_on (os_path_join root) (set files)"
      using vf by (auto simp: inj_on_def list_all_iff join_valid)
    have "distinct (selected fnm patterns root files)"
      unfolding selected_def
    proof (rule distinct_concat_map_key[where k = "\<lambda>pat. pat"])
      show "distinct (map (\<lambda>pat. pat) patterns)" using dp by simp
    next
      fix pat
      show "distinct (map (os_path_join root)
              (filter (\<lambda>f. f \<notin> IGNORE_FILES) (fnmatch_filter fnm files pat)))"
        using df inj by (auto simp: distinct_map fnmatch_filter_def intro: inj_on_subset)
    next
      fix p q a
      assume pq: "p \<in> set patterns" "q \<in> set patterns"
        and "a \<in> set (map (os_path_join root) (filter (\<lambda>f. f \<notin> IGNORE_FILES) (fnmatch_filter fnm files p)))"
        and "a \<in> set (map (os_path_join root) (filter (\<lambda>f. f \<notin> IGNORE_FILES) (fnmatch_filter fnm files q)))"
      then obtain f f' where "f \<in> set files" "fnm f p" "a = os_path_join root f"
        "f' \<in> set files" "fnm f' q" "a = os_path_join root f'"
        by (auto simp: fnmatch_filter_def)
      with inj have "f \<in> set files" "fnm f p" "fnm f q" by (auto simp: inj_on_def)
      with tf no_overlap pq show "p = q" by fastforce
    qed
    with xe show "distinct (dir_matches fnm dirs_include patterns x)" by simp
  next
    fix x y a
    assume x: "x \<in> set ?items" and y: "y \<in> set ?items"
      and ax: "a \<in> set (dir_matches fnm dirs_include patterns x)"
      and ay: "a \<in> set (dir_matches fnm dirs_include patterns y)"
    obtain root rl dirs files where xe: "x = (root, rl, dirs, files)" by (cases x)
    obtain root' rl' dirs' files' where ye: "y = (root', rl', dirs', files')" by (cases y)
    from mem[of root rl dirs files a] x ax xe
    obtain f where f: "a = os_path_join (foldl os_path_join base_dir rl) f" "f \<in> set files" by auto
    from mem[of root' rl' dirs' files' a] y ay ye
    obtain f' where f': "a = os_path_join (foldl os_path_join base_dir rl') f'" "f' \<in> set files'" by auto
    from item_facts[of root rl dirs files] x xe f(2) have v: "list_all valid_name rl" "valid_name f"
      by (auto simp: list_all_iff)
    from item_facts[of root' rl' dirs' files'] y ye f'(2) have v': "list_all valid_name rl'" "valid_name f'"
      by (auto simp: list_all_iff)
    from f(1) f'(1) have "os_path_join (foldl os_path_join base_dir rl) f =
        os_path_join (foldl os_path_join base_dir rl') f'" by simp
    from file_path_inj[OF v v' this] have "rl = rl'" by simp
    with xe ye show "fst (snd x) = fst (snd y)" by simp
  }
qed

text \<open>
  Claim C4, as amended. On a tree in which the names of a directory are pairwise
  different, no path is listed twice provided the pattern list has no repeated pattern
  and no file name of the tree (below no symbolic link, where the walk goes) matches two
  of its patterns. The patterns of the script are such a list, for every tree.
\<close>

theorem collect_paths_distinct:
  assumes "wf_tree tree"
  shows "(distinct patterns \<and>
          (\<forall>(parts, f, linked) \<in> set (tree_files tree). \<not> linked \<longrightarrow>
             (\<forall>p \<in> set patterns. \<forall>q \<in> set patterns. fnm f p \<and> fnm f q \<longrightarrow> p = q)) \<longrightarrow>
          distinct (collect_paths fnm base_dir tree dirs_include patterns)) \<and>
         distinct (collect_paths fnmatchcase base_dir tree dirs_include LOGIC_PATTERNS)"
proof (intro conjI impI)
  assume "distinct patterns \<and>
          (\<forall>(parts, f, linked) \<in> set (tree_files tree). \<not> linked \<longrightarrow>
             (\<forall>p \<in> set patterns. \<forall>q \<in> set patterns. fnm f p \<and> fnm f q \<longrightarrow> p = q))"
  with assms show "distinct (collect_paths fnm base_dir tree dirs_include patterns)"
    by (intro distinct_collect_paths) simp_all
next
  have "distinct LOGIC_PATTERNS" by (simp add: LOGIC_PATTERNS_def)
  moreover have "\<forall>(parts, f, linked) \<in> set (tree_files tree). \<not> linked \<longrightarrow>
      (\<forall>p \<in> set LOGIC_PATTERNS. \<forall>q \<in> set LOGIC_PATTERNS. fnmatchcase f p \<and> fnmatchcase f q \<longrightarrow> p = q)"
    using logic_patterns_no_overlap by blast
  ultimately show "distinct (collect_paths fnmatchcase base_dir tree dirs_include LOGIC_PATTERNS)"
    using assms by (intro distinct_collect_paths)
qed

text \<open>
  The scenario of the specification is such a tree; with the patterns \<open>*.ts\<close> and \<open>*.tsx\<close>,
  which no file name of it matches both, its result has no repetition.
\<close>

theorem collect_paths_distinct_witness:
  "wf_tree scenario \<and>
   distinct (collect_paths fnmatchcase ''/repo'' scenario (LOGIC_DIRS @ STYLE_DIRS) [''*.ts'', ''*.tsx'']) \<and>
   distinct (collect_paths fnmatchcase ''/repo'' scenario (LOGIC_DIRS @ STYLE_DIRS) LOGIC_PATTERNS)"
proof -
  have wf: "wf_tree scenario"
    by (simp add: scenario_def valid_name_def)
  have dp: "distinct [''*.ts'', ''*.tsx'']"
    by simp
  have no: "\<forall>(parts, f, linked) \<in> set (tree_files scenario). \<not> linked \<longrightarrow>
           (\<forall>p \<in> set [''*.ts'', ''*.tsx'']. \<forall>q \<in> set [''*.ts'', ''*.tsx''].
             fnmatchcase f p \<and> fnmatchcase f q \<longrightarrow> p = q)"
    by (simp add: scenario_def)
  from collect_paths_distinct[OF wf, of "[''*.ts'', ''*.tsx'']" fnmatchcase "''/repo''" "LOGIC_DIRS @ STYLE_DIRS"]
    wf dp no
  show ?thesis by blast
qed

text \<open>
  The claim as stated fails for patterns that overlap: the name \<open>a.ts\<close> matches both
  \<open>*.ts\<close> and \<open>a*\<close>, and its path is listed twice.
\<close>

theorem collect_paths_distinct_counterexample:
  "collect_paths fnmatchcase ''/repo'' (Dir [] [(''src'', Dir [] [(''ai'', Dir [''a.ts''] [])])]) LOGIC_DIRS [''*.ts'', ''a*'']
     = [''/repo/src/ai/a.ts'', ''/repo/src/ai/a.ts''] \<and>
   \<not> distinct (collect_paths fnmatchcase ''/repo'' (Dir [] [(''src'', Dir [] [(''ai'', Dir [''a.ts''] [])])]) LOGIC_DIRS [''*.ts'', ''a*''])"
  by (simp add: eval_simps)

subsection \<open>The output directory does not change the result\<close>









lemma collect_paths_Fail: "collect_paths fnm base_dir (Fail error) dirs_include patterns = []"
  by (simp add: collect_paths_def)























subsection \<open>What \<open>main\<close> writes\<close>




text \<open>
  The exceptions of a run: a collected name that the encoding of the file does not accept
  ends the run with \<open>UnicodeEncodeError\<close>, and a working directory that \<open>os.getcwd()\<close>
  does not find ends it with that error.
\<close>

lemma main_unencodable_name:
  "main fnmatchcase
     (empty_world\<lparr>cwd_tree := Dir [] [(''src'', Dir [] [(''lib'', Dir [[CHR 0xFF] @ ''.ts''] [])])]\<rparr>)
     = Inl UnicodeEncodeError \<and>
   main fnmatchcase (empty_world\<lparr>cwd := Inl FileNotFoundError\<rparr>) = Inl (OSError FileNotFoundError)"
  by (simp add: main_def makedirs_exist_ok_def write_paths_def attempt_def empty_world_def
        ascii_def linesep_def eval_simps)




subsection \<open>The logic list is part of the combined list\<close>




end
